theory Spec2Isabelle
  imports
    Main
    "HOL-Library.Char_ord"
    "HOL-Library.List_Lexorder"
    "HOL-Library.Multiset"
    "HOL-Library.Word"
begin

section \<open>Fractional indexing keys (fractional-indexing.ts)\<close>

text \<open>
  Keys are JavaScript strings, compared with \<^verbatim>\<open><\<close> and \<^verbatim>\<open>>=\<close>: lexicographically,
  code unit by code unit. They are modelled as \<^typ>\<open>string\<close> with the lexicographic order
  of \<^typ>\<open>char list\<close>; \<^verbatim>\<open>null\<close> is \<^term>\<open>None\<close>.

  A thrown \<^verbatim>\<open>Error(msg)\<close> is the value \<open>Inl (Error msg)\<close>.
\<close>

datatype error = Error string

text \<open>
  \<^verbatim>\<open>generateKeyBetween\<close> is imported from the package \<^verbatim>\<open>fractional-indexing\<close>; it is a
  parameter of everything that calls it. It returns a key or throws.
\<close>

type_synonym keyBetween = "string option \<Rightarrow> string option \<Rightarrow> error + string"

subsection \<open>The random postfix\<close>

definition randomSize :: nat where
  "randomSize = 32"

definition chars :: string where
  "chars = ''123456789ABCDEFGHIJKLMNOPQRSTUVWXYZabcdefghijklmnopqrstuvwxyz''"

text \<open>\<^verbatim>\<open>s.charAt(i)\<close>: the one-character string at \<open>i\<close>, or the empty string out of range.\<close>

definition charAt :: "string \<Rightarrow> nat \<Rightarrow> string" where
  "charAt s i = (if i < length s then [s ! i] else [])"

text \<open>
  \<^verbatim>\<open>crypto.getRandomValues(values)\<close> fills a \<^verbatim>\<open>Uint8Array(length)\<close>; the random source is
  the function \<open>rnd\<close> giving the byte written at each position.
\<close>

definition getRandomValues :: "(nat \<Rightarrow> 8 word) \<Rightarrow> nat \<Rightarrow> 8 word list" where
  "getRandomValues rnd len = map rnd [0..<len]"

text \<open>The \<^verbatim>\<open>for\<close> loop of \<^verbatim>\<open>postfix\<close>: the value of \<^verbatim>\<open>result\<close> after \<open>i\<close> iterations.\<close>

primrec postfix_loop :: "8 word list \<Rightarrow> nat \<Rightarrow> string" where
  "postfix_loop values 0 = []"
| "postfix_loop values (Suc i) =
     postfix_loop values i @ charAt chars (unat (values ! i) mod length chars)"

definition postfix :: "(nat \<Rightarrow> 8 word) \<Rightarrow> nat \<Rightarrow> string" where
  "postfix rnd len = postfix_loop (getRandomValues rnd len) len"

subsection \<open>The subkey of a key\<close>

definition subkey :: "string option \<Rightarrow> string option" where
  "subkey key =
     (case key of
        None \<Rightarrow> None
      | Some k \<Rightarrow>
          if length k \<le> randomSize + 1 then Some k
          else Some (take (length k - randomSize - 1) k))"

subsection \<open>generateFractionalIndexingKeyBetween\<close>

text \<open>\<^verbatim>\<open>generateKeyBetween(lo, hi) + '0' + postfix()\<close>: a throw of the call propagates.\<close>

definition withPostfix :: "(nat \<Rightarrow> 8 word) \<Rightarrow> error + string \<Rightarrow> error + string" where
  "withPostfix rnd r =
     (case r of Inl e \<Rightarrow> Inl e | Inr k \<Rightarrow> Inr (k @ ''0'' @ postfix rnd randomSize))"

definition generateFractionalIndexingKeyBetween ::
  "keyBetween \<Rightarrow> (nat \<Rightarrow> 8 word) \<Rightarrow> string option \<Rightarrow> string option \<Rightarrow> error + string" where
  "generateFractionalIndexingKeyBetween generateKeyBetween rnd a b =
     (if (case (a, b) of (Some x, Some y) \<Rightarrow> x \<ge> y | _ \<Rightarrow> False)
      then Inl (Error ''a should be smaller than b'')
      else
        let aSubkey = subkey a; bSubkey = subkey b in
        if aSubkey = None \<and> bSubkey = None then
          withPostfix rnd (generateKeyBetween None None)
        else if aSubkey = None \<and> bSubkey \<noteq> None then
          withPostfix rnd (generateKeyBetween None bSubkey)
        else if bSubkey = None \<and> aSubkey \<noteq> None then
          withPostfix rnd (generateKeyBetween aSubkey None)
        else if aSubkey \<noteq> None \<and> bSubkey \<noteq> None then
          (if aSubkey = bSubkey \<and> a \<noteq> None \<and> b \<noteq> None then
             withPostfix rnd (generateKeyBetween a b)
           else
             withPostfix rnd (generateKeyBetween aSubkey bSubkey))
        else Inl (Error ''Never reach here''))"

section \<open>The sortable helper (createFractionalIndexingSortableHelper)\<close>

text \<open>
  The provider's collection is a list of items in the order \<^verbatim>\<open>getItems()\<close> returns them.
  An element of type \<^verbatim>\<open>T\<close> is an object reference: here the position of the item in that
  list, paired with the item's current contents. \<^verbatim>\<open>undefined\<close> is \<^term>\<open>None\<close>.
\<close>

record 'k item =
  itemId :: 'k
  itemOrder :: string

type_synonym 'k itemRef = "nat \<times> 'k item"

definition getItems :: "'k item list \<Rightarrow> 'k itemRef list" where
  "getItems st = enumerate 0 st"

definition getItemId :: "'k itemRef \<Rightarrow> 'k" where
  "getItemId i = itemId (snd i)"

definition getItemOrder :: "'k itemRef \<Rightarrow> string" where
  "getItemOrder i = itemOrder (snd i)"

text \<open>
  A call \<^verbatim>\<open>provider.setItemOrder(item, order)\<close> of the caller's mutation hook. Every
  operation returns the calls it makes, in order, or the error it throws.
\<close>

datatype call = SetItemOrder "nat option" string

text \<open>
  \<^verbatim>\<open>provider.setItemOrder(item, generateKeyBetween(...))\<close>: the argument is evaluated
  first, so a throw of \<^verbatim>\<open>generateKeyBetween\<close> propagates and the hook is not called.
\<close>

definition setItemOrder :: "'k itemRef option \<Rightarrow> error + string \<Rightarrow> error + call list" where
  "setItemOrder item r =
     (case r of Inl e \<Rightarrow> Inl e | Inr order \<Rightarrow> Inr [SetItemOrder (map_option fst item) order])"

subsection \<open>JavaScript arrays\<close>

text \<open>\<^verbatim>\<open>xs.findIndex(P)\<close>: the index of the first element satisfying \<open>P\<close>, or \<open>-1\<close>.\<close>

fun findIndexFrom :: "('a \<Rightarrow> bool) \<Rightarrow> 'a list \<Rightarrow> int \<Rightarrow> int" where
  "findIndexFrom P [] i = - 1"
| "findIndexFrom P (x # xs) i = (if P x then i else findIndexFrom P xs (i + 1))"

definition findIndex :: "('a \<Rightarrow> bool) \<Rightarrow> 'a list \<Rightarrow> int" where
  "findIndex P xs = findIndexFrom P xs 0"

text \<open>\<^verbatim>\<open>xs[i]\<close>: \<^verbatim>\<open>undefined\<close> when \<open>i\<close> is negative or past the end.\<close>

definition array_index :: "'a list \<Rightarrow> int \<Rightarrow> 'a option" where
  "array_index xs i = (if 0 \<le> i \<and> i < int (length xs) then Some (xs ! nat i) else None)"

text \<open>\<^verbatim>\<open>xs.at(i)\<close>: a negative \<open>i\<close> counts from the end.\<close>

definition array_at :: "'a list \<Rightarrow> int \<Rightarrow> 'a option" where
  "array_at xs i = array_index xs (if i < 0 then int (length xs) + i else i)"

subsection \<open>Reading the order\<close>

text \<open>
  \<^verbatim>\<open>Array.prototype.sort\<close> is stable, and the comparator orders by \<^verbatim>\<open>getItemOrder\<close>
  ascending; \<^const>\<open>sort_key\<close> is a stable sort as well. The sort reorders the array that
  \<^verbatim>\<open>getItems()\<close> returned and changes no item.
\<close>

definition getOrderedItems :: "'k item list \<Rightarrow> 'k itemRef list" where
  "getOrderedItems st = sort_key getItemOrder (getItems st)"

definition getLargestOrder :: "'k item list \<Rightarrow> string option" where
  "getLargestOrder st =
     (let lastItem = array_at (getOrderedItems st) (- 1)
      in case lastItem of Some i \<Rightarrow> Some (getItemOrder i) | None \<Rightarrow> None)"

definition getSmallestOrder :: "'k item list \<Rightarrow> string option" where
  "getSmallestOrder st =
     (let firstItem = array_at (getOrderedItems st) 0
      in case firstItem of Some i \<Rightarrow> Some (getItemOrder i) | None \<Rightarrow> None)"

definition getNewItemOrder :: "keyBetween \<Rightarrow> 'k item list \<Rightarrow> error + string" where
  "getNewItemOrder generateKeyBetween st = generateKeyBetween (getLargestOrder st) None"

subsection \<open>Write operations\<close>

text \<open>
  \<^verbatim>\<open>x ? provider.getItemOrder(x) : null\<close>, for \<open>x\<close> an item or \<^verbatim>\<open>undefined\<close>. An item is an
  object, so it is truthy exactly when it is defined.
\<close>

definition orderOrNull :: "'k itemRef option \<Rightarrow> string option" where
  "orderOrNull x = (case x of Some i \<Rightarrow> Some (getItemOrder i) | None \<Rightarrow> None)"

definition move :: "keyBetween \<Rightarrow> 'k item list \<Rightarrow> 'k \<Rightarrow> 'k \<Rightarrow> error + call list" where
  "move generateKeyBetween st fromId toId =
     (let items = getOrderedItems st;
          from = findIndex (\<lambda>i. getItemId i = fromId) items;
          to = findIndex (\<lambda>i. getItemId i = toId) items;
          fromItem = array_index items from;
          toItem = array_index items to;
          toNextItem = array_index items (if from < to then to + 1 else to - 1);
          toOrder = orderOrNull toItem;
          toNextOrder = orderOrNull toNextItem;
          args = (if from < to then (toOrder, toNextOrder) else (toNextOrder, toOrder))
      in setItemOrder fromItem (generateKeyBetween (fst args) (snd args)))"

datatype position = Before | After

definition moveTo ::
  "keyBetween \<Rightarrow> 'k item list \<Rightarrow> 'k \<Rightarrow> 'k \<Rightarrow> position \<Rightarrow> error + call list" where
  "moveTo generateKeyBetween st fromId toId position =
     (let items = getOrderedItems st;
          from = findIndex (\<lambda>i. getItemId i = fromId) items;
          to = findIndex (\<lambda>i. getItemId i = toId) items;
          fromItem = array_index items from
      in if fromItem = None then Inr []
         else
           let toItem = array_index items to;
               toItemPrev = array_index items (to - 1);
               toItemNext = array_index items (to + 1);
               toItemOrder = orderOrNull toItem;
               toItemPrevOrder = orderOrNull toItemPrev;
               toItemNextOrder = orderOrNull toItemNext
           in if position = Before
              then setItemOrder fromItem (generateKeyBetween toItemPrevOrder toItemOrder)
              else setItemOrder fromItem (generateKeyBetween toItemOrder toItemNextOrder))"

text \<open>\<open>beforeId\<close> may be \<^verbatim>\<open>undefined\<close>, which is strictly equal to no identifier.\<close>

definition insertBefore ::
  "keyBetween \<Rightarrow> 'k item list \<Rightarrow> 'k \<Rightarrow> 'k option \<Rightarrow> error + call list" where
  "insertBefore generateKeyBetween st ident beforeId =
     (let items = getOrderedItems st;
          item = List.find (\<lambda>i. getItemId i = ident) items
      in if item = None then Inr []
         else
           let beforeItemIndex = findIndex (\<lambda>i. Some (getItemId i) = beforeId) items;
               beforeItem =
                 (if beforeItemIndex \<noteq> - 1 then array_index items beforeItemIndex else None);
               beforeItemPrev =
                 (if beforeItem \<noteq> None then array_index items (beforeItemIndex - 1) else None);
               beforeOrder = orderOrNull beforeItem;
               beforePrevOrder = orderOrNull beforeItemPrev
           in setItemOrder item (generateKeyBetween beforePrevOrder beforeOrder))"

text \<open>The write operations the helper returns, to speak of every invocation of one.\<close>

datatype 'k writeOp = Move 'k 'k | MoveTo 'k 'k position | InsertBefore 'k "'k option"

fun invoke :: "keyBetween \<Rightarrow> 'k item list \<Rightarrow> 'k writeOp \<Rightarrow> error + call list" where
  "invoke g st (Move fromId toId) = move g st fromId toId"
| "invoke g st (MoveTo fromId toId position) = moveTo g st fromId toId position"
| "invoke g st (InsertBefore ident beforeId) = insertBefore g st ident beforeId"

text \<open>The identifier of the item an invocation is to reposition.\<close>

fun movedId :: "'k writeOp \<Rightarrow> 'k" where
  "movedId (Move fromId toId) = fromId"
| "movedId (MoveTo fromId toId position) = fromId"
| "movedId (InsertBefore ident beforeId) = ident"

text \<open>
  Modelled from the spec: the provider's \<^verbatim>\<open>setItemOrder(item, newOrder)\<close> is caller code;
  it assigns the new order to the given item of the collection and touches nothing else.
\<close>

definition assignOrder :: "'k item list \<Rightarrow> nat \<Rightarrow> string \<Rightarrow> 'k item list" where
  "assignOrder st r order = st[r := (st ! r)\<lparr>itemOrder := order\<rparr>]"

section \<open>Concrete inputs\<close>

text \<open>
  A sample \<^verbatim>\<open>generateKeyBetween\<close> for evaluating the code on concrete inputs. Without a
  lower bound it returns the two-character head of the upper bound, with a lower bound it
  appends a digit to it; it throws where that is not strictly between the bounds.
\<close>

definition sampleKeyBetween :: keyBetween where
  "sampleKeyBetween lo hi =
     (case (lo, hi) of
        (None, None) \<Rightarrow> Inr ''a0''
      | (None, Some h) \<Rightarrow>
          if 2 < length h then Inr (take 2 h) else Inl (Error ''cannot decrement'')
      | (Some l, None) \<Rightarrow> Inr (l @ ''V'')
      | (Some l, Some h) \<Rightarrow>
          if l @ ''V'' < h then Inr (l @ ''V'') else Inl (Error ''no room''))"

text \<open>Three items \<open>a\<close>, \<open>b\<close>, \<open>c\<close> with orders \<open>a0 < a1 < a2\<close>, stored as \<open>c, a, b\<close>.\<close>

definition sampleItems :: "string item list" where
  "sampleItems =
     [\<lparr>itemId = ''c'', itemOrder = ''a2''\<rparr>,
      \<lparr>itemId = ''a'', itemOrder = ''a0''\<rparr>,
      \<lparr>itemId = ''b'', itemOrder = ''a1''\<rparr>]"

text \<open>The property of a key \<open>k\<close> claimed for the bounds \<open>lo\<close> and \<open>hi\<close>: strictly between them.\<close>

definition strictlyBetween :: "string option \<Rightarrow> string \<Rightarrow> string option \<Rightarrow> bool" where
  "strictlyBetween lo k hi =
     ((case lo of None \<Rightarrow> True | Some l \<Rightarrow> l < k) \<and>
      (case hi of None \<Rightarrow> True | Some h \<Rightarrow> k < h))"

section \<open>Properties of the key codec\<close>

lemma length_postfix_loop:
  "n \<le> length values \<Longrightarrow> length (postfix_loop values n) = n"
  by (induction n) (simp_all add: charAt_def chars_def)

lemma length_postfix: "length (postfix rnd len) = len"
  by (simp add: postfix_def getRandomValues_def length_postfix_loop)

subsection \<open>The lexicographic order and the sample key generator\<close>

lemma less_append_right: "ys \<noteq> [] \<Longrightarrow> xs < xs @ (ys :: 'a::linorder list)"
  by (induction xs) (auto simp: neq_Nil_conv)

lemma take_less_self: "n < length xs \<Longrightarrow> take n xs < (xs :: 'a::linorder list)"
proof -
  assume "n < length xs"
  then have "drop n xs \<noteq> []" by simp
  then have "take n xs < take n xs @ drop n xs" by (rule less_append_right)
  then show ?thesis by simp
qed

text \<open>Whatever the sample generator returns is strictly between its bounds.\<close>

lemma sampleKeyBetween_strictlyBetween:
  "sampleKeyBetween lo hi = Inr k \<Longrightarrow> strictlyBetween lo k hi"
  by (auto simp: sampleKeyBetween_def strictlyBetween_def less_append_right take_less_self
      split: option.splits if_splits)

subsection \<open>Strict betweenness\<close>

text \<open>
  C1. The doc comment of \<^verbatim>\<open>generateFractionalIndexingKeyBetween\<close> promises \<open>a < result < b\<close>.
  The code does not keep the promise when \<^verbatim>\<open>generateKeyBetween\<close> returns a proper prefix
  of the upper subkey: with no lower bound and the upper bound
  \<open>a00V0\<close> followed by 32 characters \<open>1\<close> (subkey \<open>a00V\<close>), a generator that returns
  \<open>a0\<close>, which is strictly below \<open>a00V\<close>, and random bytes that all select \<open>z\<close>, the result
  is \<open>a00\<close> followed by 32 characters \<open>z\<close>, which is above the upper bound.
\<close>

theorem between_violated:
  "sampleKeyBetween None (Some ''a00V'') = Inr ''a0'' \<and>
   strictlyBetween None ''a0'' (Some ''a00V'') \<and>
   generateFractionalIndexingKeyBetween sampleKeyBetween (\<lambda>_. 60)
     None (Some ''a00V011111111111111111111111111111111'') =
     Inr ''a00zzzzzzzzzzzzzzzzzzzzzzzzzzzzzzzz'' \<and>
   \<not> strictlyBetween None ''a00zzzzzzzzzzzzzzzzzzzzzzzzzzzzzzzz''
       (Some ''a00V011111111111111111111111111111111'')"
  by code_simp

subsection \<open>Rejection of bounds in the wrong order\<close>

text \<open>
  C2. With both bounds present and \<open>a \<ge> b\<close>, \<^verbatim>\<open>generateFractionalIndexingKeyBetween\<close>
  throws the error \<open>a should be smaller than b\<close>, whatever \<^verbatim>\<open>generateKeyBetween\<close> and the
  random source are; it returns no string.
\<close>

theorem bound_order_rejected:
  "b \<le> a \<Longrightarrow>
     generateFractionalIndexingKeyBetween generateKeyBetween rnd (Some a) (Some b) =
       Inl (Error ''a should be smaller than b'')"
  by (simp add: generateFractionalIndexingKeyBetween_def)

theorem bound_order_rejected_witness:
  "''a0'' \<le> ''a1'' \<and>
   generateFractionalIndexingKeyBetween sampleKeyBetween (\<lambda>_. 60) (Some ''a1'') (Some ''a0'') =
     Inl (Error ''a should be smaller than b'')"
  using bound_order_rejected [of "''a0''" "''a1''" sampleKeyBetween "\<lambda>_. 60"] by simp

subsection \<open>Subkey extraction\<close>

text \<open>
  C4. A key of at most 33 characters is its own subkey. The subkey of a longer key is the
  key without its last 33 characters, and appending \<open>0\<close> and any 32 characters to that
  subkey gives a key with the same subkey. The last part holds for every key but the
  empty string, so for every key longer than 33 characters.
\<close>

theorem subkey_extraction:
  "(length x \<le> 33 \<longrightarrow> subkey (Some x) = Some x) \<and>
   (33 < length x \<longrightarrow> subkey (Some x) = Some (take (length x - 33) x)) \<and>
   (x \<noteq> [] \<longrightarrow>
      (\<forall>s. length s = 32 \<longrightarrow>
         subkey (Some (the (subkey (Some x)) @ ''0'' @ s)) = subkey (Some x)))"
  by (auto simp add: subkey_def randomSize_def)

theorem subkey_extraction_witness:
  "subkey (Some ''a0'') = Some ''a0'' \<and>
   subkey (Some ''a0V0zzzzzzzzzzzzzzzzzzzzzzzzzzzzzzzz'') = Some ''a0V'' \<and>
   subkey (Some (''a0V'' @ ''0'' @ ''11111111111111111111111111111111'')) = Some ''a0V''"
proof -
  let ?x = "''a0V0zzzzzzzzzzzzzzzzzzzzzzzzzzzzzzzz''"
  let ?s = "''11111111111111111111111111111111''"
  have short: "subkey (Some ''a0'') = Some ''a0''"
    using subkey_extraction [of "''a0''"] by simp
  have long: "33 < length ?x" and nonempty: "?x \<noteq> []"
    by simp_all
  have cut: "subkey (Some ?x) = Some ''a0V''"
    using subkey_extraction [of ?x] long by simp
  have "\<forall>s. length s = 32 \<longrightarrow>
          subkey (Some (the (subkey (Some ?x)) @ ''0'' @ s)) = subkey (Some ?x)"
    using subkey_extraction [of ?x] nonempty by blast
  then have "subkey (Some (the (subkey (Some ?x)) @ ''0'' @ ?s)) = subkey (Some ?x)"
    by simp
  then have again: "subkey (Some (''a0V'' @ ''0'' @ ?s)) = Some ''a0V''"
    by (simp only: cut option.sel)
  from short cut again show ?thesis by blast
qed

subsection \<open>Which bounds reach generateKeyBetween\<close>

text \<open>
  C5. For present bounds \<open>a < b\<close> with equal subkeys, \<^verbatim>\<open>generateKeyBetween\<close> is called with
  the full strings \<open>a\<close> and \<open>b\<close>; with different subkeys it is called with the two subkeys.
  In both cases the result is what that call returns followed by \<open>0\<close> and the 32
  characters of the postfix. The equation holds for every \<^verbatim>\<open>generateKeyBetween\<close>, so it
  fixes the arguments of the call.
\<close>

theorem subkey_branch:
  "a < b \<Longrightarrow>
     generateFractionalIndexingKeyBetween generateKeyBetween rnd (Some a) (Some b) =
       withPostfix rnd
         (if subkey (Some a) = subkey (Some b)
          then generateKeyBetween (Some a) (Some b)
          else generateKeyBetween (subkey (Some a)) (subkey (Some b))) \<and>
     withPostfix rnd (Inr k) = Inr (k @ ''0'' @ postfix rnd 32) \<and>
     length (postfix rnd 32) = 32"
  by (auto simp add: generateFractionalIndexingKeyBetween_def subkey_def Let_def
      withPostfix_def randomSize_def length_postfix)

theorem subkey_branch_witness:
  "''a0011111111111111111111111111111111'' < ''a00zzzzzzzzzzzzzzzzzzzzzzzzzzzzzzzz'' \<and>
   generateFractionalIndexingKeyBetween sampleKeyBetween (\<lambda>_. 60)
     (Some ''a0011111111111111111111111111111111'')
     (Some ''a00zzzzzzzzzzzzzzzzzzzzzzzzzzzzzzzz'') =
   withPostfix (\<lambda>_. 60)
     (sampleKeyBetween (Some ''a0011111111111111111111111111111111'')
       (Some ''a00zzzzzzzzzzzzzzzzzzzzzzzzzzzzzzzz''))"
proof -
  have lt: "''a0011111111111111111111111111111111'' < ''a00zzzzzzzzzzzzzzzzzzzzzzzzzzzzzzzz''"
    by simp
  have sk: "subkey (Some ''a0011111111111111111111111111111111'') =
            subkey (Some ''a00zzzzzzzzzzzzzzzzzzzzzzzzzzzzzzzz'')"
    by (simp add: subkey_def randomSize_def)
  show ?thesis
    using subkey_branch [OF lt, of sampleKeyBetween "\<lambda>_. 60"] lt sk by simp
qed

section \<open>Properties of the sortable helper\<close>

subsection \<open>Arrays\<close>

lemma findIndexFrom_eq:
  "findIndexFrom P xs i =
     (if \<exists>x\<in>set xs. P x then i + int (length (takeWhile (Not \<circ> P) xs)) else - 1)"
  by (induction xs arbitrary: i) auto

lemma findIndex_eq:
  "findIndex P xs =
     (if \<exists>x\<in>set xs. P x then int (length (takeWhile (Not \<circ> P) xs)) else - 1)"
  by (simp add: findIndex_def findIndexFrom_eq)

lemma findIndex_missing: "\<forall>x\<in>set xs. \<not> P x \<Longrightarrow> findIndex P xs = - 1"
  by (simp add: findIndex_eq)

lemma array_index_negative [simp]: "i < 0 \<Longrightarrow> array_index xs i = None"
  by (simp add: array_index_def)

lemma array_index_findIndexFrom:
  "array_index (ys @ xs) (findIndexFrom P xs (int (length ys))) = List.find P xs"
proof (induction xs arbitrary: ys)
  case Nil
  then show ?case by simp
next
  case (Cons x xs)
  show ?case
  proof (cases "P x")
    case True
    then show ?thesis by (simp add: array_index_def)
  next
    case False
    have "array_index ((ys @ [x]) @ xs) (findIndexFrom P xs (int (length (ys @ [x])))) =
            List.find P xs"
      by (rule Cons.IH)
    with False show ?thesis by (simp add: add.commute)
  qed
qed

lemma array_index_findIndex: "array_index xs (findIndex P xs) = List.find P xs"
  using array_index_findIndexFrom [of "[]" xs P] by (simp add: findIndex_def)

subsection \<open>The ordered items\<close>

lemma set_getOrderedItems: "set (getOrderedItems st) = set (enumerate 0 st)"
  by (simp add: getOrderedItems_def getItems_def)

lemma in_getOrderedItems:
  "(r, x) \<in> set (getOrderedItems st) \<longleftrightarrow> r < length st \<and> st ! r = x"
  by (auto simp add: set_getOrderedItems in_set_enumerate_eq)

lemma length_getOrderedItems [simp]: "length (getOrderedItems st) = length st"
  by (simp add: getOrderedItems_def getItems_def)

lemma map_insort_key:
  "map h (insort_key (\<lambda>x. f (h x)) x xs) = insort_key f (h x) (map h xs)"
  by (induction xs) auto

lemma map_sort_key: "map h (sort_key (\<lambda>x. f (h x)) xs) = sort_key f (map h xs)"
  by (induction xs) (simp_all add: map_insort_key)

lemma map_snd_getOrderedItems: "map snd (getOrderedItems st) = sort_key itemOrder st"
proof -
  have "getOrderedItems st = sort_key (\<lambda>i. itemOrder (snd i)) (enumerate 0 st)"
    unfolding getOrderedItems_def getItems_def getItemOrder_def ..
  then show ?thesis
    by (simp add: map_sort_key)
qed

lemma find_in_getOrderedItems:
  assumes "k \<in> itemId ` set st"
  shows "\<exists>r. r < length st \<and> itemId (st ! r) = k \<and>
           List.find (\<lambda>i. getItemId i = k) (getOrderedItems st) = Some (r, st ! r)"
proof -
  from assms obtain j where j: "j < length st" "itemId (st ! j) = k"
    by (auto simp add: in_set_conv_nth)
  then have "(j, st ! j) \<in> set (getOrderedItems st)"
    by (simp add: in_getOrderedItems)
  moreover have "getItemId (j, st ! j) = k"
    using j by (simp add: getItemId_def)
  ultimately have "List.find (\<lambda>i. getItemId i = k) (getOrderedItems st) \<noteq> None"
    unfolding find_None_iff by blast
  then obtain r x where
    found: "List.find (\<lambda>i. getItemId i = k) (getOrderedItems st) = Some (r, x)"
    by fastforce
  then have "getItemId (r, x) = k" and "(r, x) \<in> set (getOrderedItems st)"
    unfolding find_Some_iff by (metis nth_mem)+
  then have "r < length st" and "st ! r = x" and "itemId x = k"
    by (simp_all add: in_getOrderedItems getItemId_def)
  with found show ?thesis by blast
qed

lemma find_not_in_getOrderedItems:
  assumes "k \<notin> itemId ` set st"
  shows "List.find (\<lambda>i. getItemId i = k) (getOrderedItems st) = None"
proof -
  have "getItemId i \<noteq> k" if "i \<in> set (getOrderedItems st)" for i
  proof -
    obtain r x where i: "i = (r, x)" by (cases i)
    with that have "r < length st" and "st ! r = x"
      by (simp_all add: in_getOrderedItems)
    then have "itemId x \<in> itemId ` set st"
      by (metis imageI nth_mem)
    with assms i show ?thesis
      by (auto simp add: getItemId_def)
  qed
  then show ?thesis
    unfolding find_None_iff by blast
qed

lemma getItemId_missing:
  assumes "k \<notin> itemId ` set st"
  shows "\<forall>i\<in>set (getOrderedItems st). \<not> getItemId i = k"
  using find_not_in_getOrderedItems [OF assms] unfolding find_None_iff by blast

lemma findIndex_missing_id:
  "k \<notin> itemId ` set st \<Longrightarrow> findIndex (\<lambda>i. getItemId i = k) (getOrderedItems st) = - 1"
  by (rule findIndex_missing) (rule getItemId_missing)

lemma getSmallestOrder_eq:
  "getSmallestOrder st = orderOrNull (array_index (getOrderedItems st) 0)"
  by (simp add: getSmallestOrder_def orderOrNull_def array_at_def)

lemma setItemOrder_Some:
  "setItemOrder (Some (r, x)) res =
     (case res of Inl e \<Rightarrow> Inl e | Inr k \<Rightarrow> Inr [SetItemOrder (Some r) k])"
  by (cases res) (simp_all add: setItemOrder_def)

subsection \<open>The shape of every write operation\<close>

lemma move_shape:
  "\<exists>lo hi. move g st fromId toId =
     setItemOrder (List.find (\<lambda>i. getItemId i = fromId) (getOrderedItems st)) (g lo hi)"
  unfolding move_def Let_def array_index_findIndex by blast

lemma moveTo_not_found:
  "List.find (\<lambda>i. getItemId i = fromId) (getOrderedItems st) = None \<Longrightarrow>
     moveTo g st fromId toId p = Inr []"
  by (simp add: moveTo_def Let_def array_index_findIndex)

lemma moveTo_shape:
  "List.find (\<lambda>i. getItemId i = fromId) (getOrderedItems st) = Some i \<Longrightarrow>
     \<exists>lo hi. moveTo g st fromId toId p = setItemOrder (Some i) (g lo hi)"
  unfolding moveTo_def Let_def array_index_findIndex by (cases p) auto

lemma insertBefore_not_found:
  "List.find (\<lambda>i. getItemId i = ident) (getOrderedItems st) = None \<Longrightarrow>
     insertBefore g st ident beforeId = Inr []"
  by (simp add: insertBefore_def Let_def)

lemma insertBefore_shape:
  "List.find (\<lambda>i. getItemId i = ident) (getOrderedItems st) = Some i \<Longrightarrow>
     \<exists>lo hi. insertBefore g st ident beforeId = setItemOrder (Some i) (g lo hi)"
  unfolding insertBefore_def Let_def by auto

text \<open>A missing or undefined \<open>beforeId\<close>: both bounds are \<^verbatim>\<open>null\<close>.\<close>

lemma insertBefore_missing_before:
  assumes "List.find (\<lambda>i. getItemId i = ident) (getOrderedItems st) = Some i"
    and "beforeId = None \<or> the beforeId \<notin> itemId ` set st"
  shows "insertBefore g st ident beforeId = setItemOrder (Some i) (g None None)"
proof -
  have "\<forall>j\<in>set (getOrderedItems st). \<not> Some (getItemId j) = beforeId"
    using assms(2) getItemId_missing [of "the beforeId" st] by (cases beforeId) auto
  then have "findIndex (\<lambda>i. Some (getItemId i) = beforeId) (getOrderedItems st) = - 1"
    by (rule findIndex_missing)
  with assms(1) show ?thesis
    by (simp add: insertBefore_def Let_def orderOrNull_def)
qed

lemma moveTo_missing_to:
  assumes "List.find (\<lambda>i. getItemId i = fromId) (getOrderedItems st) = Some i"
    and "toId \<notin> itemId ` set st"
  shows "moveTo g st fromId toId After = setItemOrder (Some i) (g None (getSmallestOrder st))"
    and "moveTo g st fromId toId Before = setItemOrder (Some i) (g None None)"
  using assms(1) findIndex_missing_id [OF assms(2)]
  by (simp_all add: moveTo_def Let_def array_index_findIndex getSmallestOrder_eq orderOrNull_def)

lemma setItemOrder_Inr:
  "setItemOrder item res = Inr calls \<Longrightarrow>
     \<exists>k. res = Inr k \<and> calls = [SetItemOrder (map_option fst item) k]"
  by (cases res) (auto simp add: setItemOrder_def)

lemma invoke_shape:
  fixes st :: "'k item list"
  obtains "invoke g st op = Inr []"
  | lo hi and item :: "'k itemRef option" where "invoke g st op = setItemOrder item (g lo hi)"
proof (cases op)
  case (Move fromId toId)
  from move_shape [of g st fromId toId] obtain lo hi where
    "move g st fromId toId =
       setItemOrder (List.find (\<lambda>i. getItemId i = fromId) (getOrderedItems st)) (g lo hi)"
    by blast
  with Move have "invoke g st op =
       setItemOrder (List.find (\<lambda>i. getItemId i = fromId) (getOrderedItems st)) (g lo hi)"
    by simp
  then show ?thesis by (rule that(2))
next
  case (MoveTo fromId toId p)
  show ?thesis
  proof (cases "List.find (\<lambda>i. getItemId i = fromId) (getOrderedItems st)")
    case None
    with MoveTo have "invoke g st op = Inr []"
      by (simp add: moveTo_not_found)
    then show ?thesis by (rule that(1))
  next
    case (Some i)
    from moveTo_shape [OF this, of g toId p] obtain lo hi where
      "moveTo g st fromId toId p = setItemOrder (Some i) (g lo hi)"
      by blast
    with MoveTo have "invoke g st op = setItemOrder (Some i) (g lo hi)"
      by simp
    then show ?thesis by (rule that(2))
  qed
next
  case (InsertBefore ident beforeId)
  show ?thesis
  proof (cases "List.find (\<lambda>i. getItemId i = ident) (getOrderedItems st)")
    case None
    with InsertBefore have "invoke g st op = Inr []"
      by (simp add: insertBefore_not_found)
    then show ?thesis by (rule that(1))
  next
    case (Some i)
    from insertBefore_shape [OF this, of g beforeId] obtain lo hi where
      "insertBefore g st ident beforeId = setItemOrder (Some i) (g lo hi)"
      by blast
    with InsertBefore have "invoke g st op = setItemOrder (Some i) (g lo hi)"
      by simp
    then show ?thesis by (rule that(2))
  qed
qed

lemma invoke_found:
  assumes "movedId op \<in> itemId ` set st"
  shows "\<exists>r lo hi. r < length st \<and> itemId (st ! r) = movedId op \<and>
           invoke g st op = setItemOrder (Some (r, st ! r)) (g lo hi)"
proof -
  from find_in_getOrderedItems [OF assms] obtain r where
    r: "r < length st" "itemId (st ! r) = movedId op"
      "List.find (\<lambda>i. getItemId i = movedId op) (getOrderedItems st) = Some (r, st ! r)"
    by blast
  have "\<exists>lo hi. invoke g st op = setItemOrder (Some (r, st ! r)) (g lo hi)"
  proof (cases op)
    case (Move fromId toId)
    then show ?thesis using move_shape [of g st fromId toId] r(3) by auto
  next
    case (MoveTo fromId toId p)
    then show ?thesis using moveTo_shape [of fromId st "(r, st ! r)" g toId p] r(3) by auto
  next
    case (InsertBefore ident beforeId)
    then show ?thesis
      using insertBefore_shape [of ident st "(r, st ! r)" g beforeId] r(3) by auto
  qed
  with r(1,2) show ?thesis by blast
qed

lemma invoke_not_found:
  assumes "movedId op \<notin> itemId ` set st" and "\<forall>fromId toId. op \<noteq> Move fromId toId"
  shows "invoke g st op = Inr []"
proof (cases op)
  case (Move fromId toId)
  with assms(2) show ?thesis by simp
next
  case (MoveTo fromId toId p)
  then show ?thesis
    using assms(1) find_not_in_getOrderedItems [of fromId st] by (simp add: moveTo_not_found)
next
  case (InsertBefore ident beforeId)
  then show ?thesis
    using assms(1) find_not_in_getOrderedItems [of ident st]
    by (simp add: insertBefore_not_found)
qed

lemma getSmallestOrder_least:
  assumes "st \<noteq> []"
  shows "\<exists>first. getSmallestOrder st = Some first \<and> (\<forall>x\<in>set st. first \<le> itemOrder x)"
proof -
  from assms have "getOrderedItems st \<noteq> []"
    by (metis length_getOrderedItems length_0_conv)
  then obtain i items where items: "getOrderedItems st = i # items"
    by (cases "getOrderedItems st") auto
  have "sorted (map getItemOrder (getOrderedItems st))"
    by (simp add: getOrderedItems_def)
  with items have least: "\<forall>j\<in>set (getOrderedItems st). getItemOrder i \<le> getItemOrder j"
    by auto
  have "getItemOrder i \<le> itemOrder x" if "x \<in> set st" for x
  proof -
    from that obtain r where "r < length st" "st ! r = x"
      by (auto simp add: in_set_conv_nth)
    then have "(r, x) \<in> set (getOrderedItems st)"
      by (simp add: in_getOrderedItems)
    with least have "getItemOrder i \<le> getItemOrder (r, x)"
      by blast
    then show ?thesis by (simp add: getItemOrder_def)
  qed
  moreover have "getSmallestOrder st = Some (getItemOrder i)"
    by (simp add: getSmallestOrder_eq items array_index_def orderOrNull_def)
  ultimately show ?thesis by blast
qed

lemma sampleItems_ids: "itemId ` set sampleItems = {''a'', ''b'', ''c''}"
  by (auto simp add: sampleItems_def)

lemma sort_key_three:
  assumes "mset xs = {#a, b, c#}"
    and "f a < f b" and "f b < f c"
  shows "sort_key f xs = [a, b, (c :: 'a)]"
proof (rule sort_key_inj_key_eq)
  show "mset xs = mset [a, b, c]"
    using assms(1) by simp
  have "set xs = {a, b, c}"
    using assms(1) by (metis set_mset_mset set_mset_add_mset_insert set_mset_empty)
  then show "inj_on f (set xs)"
    using assms(2,3) by (auto simp add: inj_on_def)
  show "sorted (map f [a, b, c])"
    using assms(2,3) by auto
qed

subsection \<open>Where the assigned keys come from\<close>

text \<open>
  C3, as stated, fails: the helper calls the imported \<^verbatim>\<open>generateKeyBetween\<close> directly and
  never \<^verbatim>\<open>generateFractionalIndexingKeyBetween\<close>, so an assigned key carries no \<open>0\<close> and
  32-character postfix. Moving \<open>a\<close> after \<open>b\<close> in the sample collection assigns the
  three-character key \<open>a1V\<close>, exactly what \<^verbatim>\<open>generateKeyBetween\<close> returned.
\<close>

theorem envelope_absent:
  "moveTo sampleKeyBetween sampleItems ''a'' ''b'' After =
     Inr [SetItemOrder (Some 1) ''a1V''] \<and>
   sampleKeyBetween (Some ''a1'') (Some ''a2'') = Inr ''a1V'' \<and>
   length ''a1V'' < 33"
  by code_simp

text \<open>
  C3, amended: \<^verbatim>\<open>getNewItemOrder\<close> returns what \<^verbatim>\<open>generateKeyBetween\<close> returns for the
  largest order and no upper bound, and every key that \<^verbatim>\<open>move\<close>, \<^verbatim>\<open>moveTo\<close> or
  \<^verbatim>\<open>insertBefore\<close> passes to the mutation hook is, unchanged, a value returned by
  \<^verbatim>\<open>generateKeyBetween\<close>.
\<close>

theorem keys_are_generateKeyBetween_results:
  "getNewItemOrder g st = g (getLargestOrder st) None \<and>
   (invoke g st op = Inr calls \<longrightarrow> SetItemOrder r k \<in> set calls \<longrightarrow>
      (\<exists>lo hi. g lo hi = Inr k))"
proof -
  have "\<exists>lo hi. g lo hi = Inr k"
    if res: "invoke g st op = Inr calls" and call: "SetItemOrder r k \<in> set calls"
  proof (rule invoke_shape [of g st op])
    assume "invoke g st op = Inr []"
    with res call show ?thesis by simp
  next
    fix lo hi and item :: "'a itemRef option"
    assume "invoke g st op = setItemOrder item (g lo hi)"
    with res have "setItemOrder item (g lo hi) = Inr calls"
      by simp
    from setItemOrder_Inr [OF this] call have "g lo hi = Inr k"
      by auto
    then show ?thesis by blast
  qed
  then show ?thesis
    by (simp add: getNewItemOrder_def)
qed

theorem keys_are_generateKeyBetween_results_witness:
  "invoke sampleKeyBetween sampleItems (MoveTo ''a'' ''b'' After) =
     Inr [SetItemOrder (Some 1) ''a1V''] \<and>
   (\<exists>lo hi. sampleKeyBetween lo hi = Inr ''a1V'') \<and>
   getNewItemOrder sampleKeyBetween sampleItems =
     sampleKeyBetween (getLargestOrder sampleItems) None"
proof -
  have run: "invoke sampleKeyBetween sampleItems (MoveTo ''a'' ''b'' After) =
      Inr [SetItemOrder (Some 1) ''a1V'']"
    by code_simp
  from keys_are_generateKeyBetween_results [of sampleKeyBetween sampleItems
      "MoveTo ''a'' ''b'' After" "[SetItemOrder (Some 1) ''a1V'']" "Some 1" "''a1V''"] run
  show ?thesis by simp
qed

subsection \<open>Moving the first of three items onto the last\<close>

text \<open>
  C6, as stated, fails: moving forward, \<^verbatim>\<open>move\<close> takes the bounds from the target and the
  item after the target. With the target last, the key is generated above the target's
  order: in the sample collection the new key of \<open>a\<close> is \<open>a2V\<close>, not below the order \<open>a2\<close>
  of \<open>c\<close>, and the collection then reads \<open>b\<close>, \<open>c\<close>, \<open>a\<close>.
\<close>

theorem move_lands_after_target:
  "move sampleKeyBetween sampleItems ''a'' ''c'' = Inr [SetItemOrder (Some 1) ''a2V''] \<and>
   sampleKeyBetween (Some ''a2'') None = Inr ''a2V'' \<and>
   \<not> ''a2V'' < ''a2'' \<and>
   map snd (getOrderedItems (assignOrder sampleItems 1 ''a2V'')) =
     [\<lparr>itemId = ''b'', itemOrder = ''a1''\<rparr>,
      \<lparr>itemId = ''c'', itemOrder = ''a2''\<rparr>,
      \<lparr>itemId = ''a'', itemOrder = ''a2V''\<rparr>]"
  by code_simp

text \<open>
  C6, amended: for a collection of three items \<open>a\<close>, \<open>b\<close>, \<open>c\<close> with
  \<open>a.order < b.order < c.order\<close>, stored in any order, where the identifier of \<open>c\<close> is
  not that of \<open>a\<close> or \<open>b\<close>, \<^verbatim>\<open>move(a.id, c.id)\<close> calls \<^verbatim>\<open>generateKeyBetween(c.order, null)\<close>
  and assigns the key it returns to \<open>a\<close>, and to no other item; a throw of that call
  propagates. Whenever the assigned key is above \<open>c.order\<close>, as the contract of
  \<^verbatim>\<open>generateKeyBetween\<close> asks, the collection then reads \<open>b\<close>, \<open>c\<close>, \<open>a\<close>:
  \<open>b.order < c.order < a'.order\<close>.
\<close>

theorem move_forward_onto_last:
  assumes items: "mset st = {#a, b, c#}"
    and ab: "itemOrder a < itemOrder b" and bc: "itemOrder b < itemOrder c"
    and ids: "itemId c \<noteq> itemId a" "itemId c \<noteq> itemId b"
  shows "\<exists>r. r < length st \<and> st ! r = a \<and>
           move g st (itemId a) (itemId c) =
             (case g (Some (itemOrder c)) None of
                Inl e \<Rightarrow> Inl e | Inr k \<Rightarrow> Inr [SetItemOrder (Some r) k]) \<and>
           (\<forall>k. itemOrder c < k \<longrightarrow>
              map snd (getOrderedItems (assignOrder st r k)) = [b, c, a\<lparr>itemOrder := k\<rparr>])"
proof -
  have "map snd (getOrderedItems st) = [a, b, c]"
    using sort_key_three [OF items ab bc] by (simp add: map_snd_getOrderedItems)
  then obtain ra rb rc where
    ordered: "getOrderedItems st = [(ra, a), (rb, b), (rc, c)]"
    by (auto simp add: map_eq_Cons_conv)
  then have "(ra, a) \<in> set (getOrderedItems st)"
    by simp
  then have ra: "ra < length st" "st ! ra = a"
    by (simp_all add: in_getOrderedItems)
  have "move g st (itemId a) (itemId c) =
          setItemOrder (Some (ra, a)) (g (Some (itemOrder c)) None)"
    using ids
    by (simp add: move_def Let_def ordered findIndex_def getItemId_def array_index_def
        orderOrNull_def getItemOrder_def)
  then have moved: "move g st (itemId a) (itemId c) =
          (case g (Some (itemOrder c)) None of
             Inl e \<Rightarrow> Inl e | Inr k \<Rightarrow> Inr [SetItemOrder (Some ra) k])"
    by (simp only: setItemOrder_Some)
  have sorted': "map snd (getOrderedItems (assignOrder st ra k)) = [b, c, a\<lparr>itemOrder := k\<rparr>]"
    if above: "itemOrder c < k" for k
  proof -
    have "mset (assignOrder st ra k) = {#b, c, a\<lparr>itemOrder := k\<rparr>#}"
      using ra items by (simp add: assignOrder_def mset_update)
    then have "sort_key itemOrder (assignOrder st ra k) = [b, c, a\<lparr>itemOrder := k\<rparr>]"
      using bc above by (intro sort_key_three) simp_all
    then show ?thesis
      by (simp add: map_snd_getOrderedItems)
  qed
  show ?thesis
  proof (intro exI [of _ ra] conjI allI impI)
    show "ra < length st" by (rule ra(1))
    show "st ! ra = a" by (rule ra(2))
    show "move g st (itemId a) (itemId c) =
          (case g (Some (itemOrder c)) None of
             Inl e \<Rightarrow> Inl e | Inr k \<Rightarrow> Inr [SetItemOrder (Some ra) k])"
      by (rule moved)
    show "map snd (getOrderedItems (assignOrder st ra k)) = [b, c, a\<lparr>itemOrder := k\<rparr>]"
      if "itemOrder c < k" for k
      using that by (rule sorted')
  qed
qed

theorem move_forward_onto_last_witness:
  "mset sampleItems =
     {#\<lparr>itemId = ''a'', itemOrder = ''a0''\<rparr>, \<lparr>itemId = ''b'', itemOrder = ''a1''\<rparr>,
       \<lparr>itemId = ''c'', itemOrder = ''a2''\<rparr>#} \<and>
   sampleKeyBetween (Some ''a2'') None = Inr ''a2V'' \<and> ''a2'' < ''a2V'' \<and>
   (\<exists>r. r < length sampleItems \<and>
      sampleItems ! r = \<lparr>itemId = ''a'', itemOrder = ''a0''\<rparr> \<and>
      move sampleKeyBetween sampleItems ''a'' ''c'' = Inr [SetItemOrder (Some r) ''a2V''] \<and>
      map snd (getOrderedItems (assignOrder sampleItems r ''a2V'')) =
        [\<lparr>itemId = ''b'', itemOrder = ''a1''\<rparr>,
         \<lparr>itemId = ''c'', itemOrder = ''a2''\<rparr>,
         \<lparr>itemId = ''a'', itemOrder = ''a2V''\<rparr>])"
proof -
  let ?a = "\<lparr>itemId = ''a'', itemOrder = ''a0''\<rparr>"
  let ?b = "\<lparr>itemId = ''b'', itemOrder = ''a1''\<rparr>"
  let ?c = "\<lparr>itemId = ''c'', itemOrder = ''a2''\<rparr>"
  have items: "mset sampleItems = {#?a, ?b, ?c#}"
    by (simp add: sampleItems_def)
  have key: "sampleKeyBetween (Some ''a2'') None = Inr ''a2V''"
    by (simp add: sampleKeyBetween_def)
  have above: "''a2'' < ''a2V''"
    by simp
  have "\<exists>r. r < length sampleItems \<and> sampleItems ! r = ?a \<and>
      move sampleKeyBetween sampleItems (itemId ?a) (itemId ?c) =
        (case sampleKeyBetween (Some (itemOrder ?c)) None of
           Inl e \<Rightarrow> Inl e | Inr k \<Rightarrow> Inr [SetItemOrder (Some r) k]) \<and>
      (\<forall>k. itemOrder ?c < k \<longrightarrow>
         map snd (getOrderedItems (assignOrder sampleItems r k)) =
           [?b, ?c, ?a\<lparr>itemOrder := k\<rparr>])"
    by (rule move_forward_onto_last [of sampleItems ?a ?b ?c sampleKeyBetween])
      (simp_all add: items)
  then obtain r where r: "r < length sampleItems" "sampleItems ! r = ?a"
    and moved: "move sampleKeyBetween sampleItems ''a'' ''c'' =
        (case sampleKeyBetween (Some ''a2'') None of
           Inl e \<Rightarrow> Inl e | Inr k \<Rightarrow> Inr [SetItemOrder (Some r) k])"
    and after: "\<forall>k. ''a2'' < k \<longrightarrow>
         map snd (getOrderedItems (assignOrder sampleItems r k)) =
           [?b, ?c, \<lparr>itemId = ''a'', itemOrder = k\<rparr>]"
    by auto
  from moved have call: "move sampleKeyBetween sampleItems ''a'' ''c'' =
      Inr [SetItemOrder (Some r) ''a2V'']"
    by (simp add: key)
  from after above have order: "map snd (getOrderedItems (assignOrder sampleItems r ''a2V'')) =
      [?b, ?c, \<lparr>itemId = ''a'', itemOrder = ''a2V''\<rparr>]"
    by blast
  have ex: "\<exists>r. r < length sampleItems \<and> sampleItems ! r = ?a \<and>
      move sampleKeyBetween sampleItems ''a'' ''c'' = Inr [SetItemOrder (Some r) ''a2V''] \<and>
      map snd (getOrderedItems (assignOrder sampleItems r ''a2V'')) =
        [?b, ?c, \<lparr>itemId = ''a'', itemOrder = ''a2V''\<rparr>]"
  proof (intro exI [of _ r] conjI)
    show "r < length sampleItems" by (rule r(1))
    show "sampleItems ! r = ?a" by (rule r(2))
    show "move sampleKeyBetween sampleItems ''a'' ''c'' = Inr [SetItemOrder (Some r) ''a2V'']"
      by (rule call)
    show "map snd (getOrderedItems (assignOrder sampleItems r ''a2V'')) =
        [?b, ?c, \<lparr>itemId = ''a'', itemOrder = ''a2V''\<rparr>]"
      by (rule order)
  qed
  show ?thesis
  proof (intro conjI)
    show "mset sampleItems = {#?a, ?b, ?c#}" by (rule items)
    show "sampleKeyBetween (Some ''a2'') None = Inr ''a2V''" by (rule key)
    show "''a2'' < ''a2V''" by (rule above)
    show "\<exists>r. r < length sampleItems \<and> sampleItems ! r = ?a \<and>
      move sampleKeyBetween sampleItems ''a'' ''c'' = Inr [SetItemOrder (Some r) ''a2V''] \<and>
      map snd (getOrderedItems (assignOrder sampleItems r ''a2V'')) =
        [?b, ?c, \<lparr>itemId = ''a'', itemOrder = ''a2V''\<rparr>]"
      by (rule ex)
  qed
qed

subsection \<open>insertBefore without a target\<close>

text \<open>With \<open>beforeId\<close> undefined or not in the collection, both bounds are \<^verbatim>\<open>null\<close>.\<close>

lemma insertBefore_without_target:
  assumes "ident \<in> itemId ` set st"
    and "beforeId = None \<or> the beforeId \<notin> itemId ` set st"
  shows "\<exists>r. r < length st \<and> itemId (st ! r) = ident \<and>
           insertBefore g st ident beforeId =
             (case g None None of
                Inl e \<Rightarrow> Inl e | Inr k \<Rightarrow> Inr [SetItemOrder (Some r) k])"
proof -
  from find_in_getOrderedItems [OF assms(1)] obtain r where
    r: "r < length st" "itemId (st ! r) = ident"
      "List.find (\<lambda>i. getItemId i = ident) (getOrderedItems st) = Some (r, st ! r)"
    by blast
  from insertBefore_missing_before [OF r(3) assms(2), of g]
  have "insertBefore g st ident beforeId =
          (case g None None of Inl e \<Rightarrow> Inl e | Inr k \<Rightarrow> Inr [SetItemOrder (Some r) k])"
    by (simp add: setItemOrder_Some)
  with r(1,2) show ?thesis by blast
qed

text \<open>
  C7. The comment above \<^verbatim>\<open>insertBefore\<close> says that without \<open>beforeId\<close> the item is inserted
  after the last one. The code passes \<^verbatim>\<open>null\<close> for both bounds instead of the largest
  order: in the sample collection, \<^verbatim>\<open>insertBefore('b', undefined)\<close> assigns to \<open>b\<close> the key
  that \<^verbatim>\<open>generateKeyBetween(null, null)\<close> returns, here \<open>a0\<close>, which is not above the
  largest order \<open>a2\<close>.
\<close>

theorem insertBefore_undefined_not_appended:
  "insertBefore sampleKeyBetween sampleItems ''b'' None = Inr [SetItemOrder (Some 2) ''a0''] \<and>
   sampleKeyBetween None None = Inr ''a0'' \<and>
   getLargestOrder sampleItems = Some ''a2'' \<and>
   \<not> ''a2'' < ''a0''"
  by code_simp

subsection \<open>An item to move that is not in the collection\<close>

text \<open>\<^verbatim>\<open>moveTo\<close> returns at once when \<open>fromId\<close> is not found.\<close>

lemma moveTo_missing_from:
  "fromId \<notin> itemId ` set st \<Longrightarrow> moveTo g st fromId toId p = Inr []"
  by (simp add: moveTo_not_found find_not_in_getOrderedItems)

text \<open>
  C8. \<^verbatim>\<open>moveTo\<close> and \<^verbatim>\<open>insertBefore\<close> return when the item is not found; \<^verbatim>\<open>move\<close> has no
  such guard. In the sample collection, \<^verbatim>\<open>move('missing', 'c')\<close> calls
  \<^verbatim>\<open>generateKeyBetween\<close> with the order of \<open>c\<close> and \<^verbatim>\<open>null\<close>, and passes the key to the
  mutation hook together with \<^verbatim>\<open>undefined\<close> as the item; \<^verbatim>\<open>moveTo\<close> makes no call.
\<close>

theorem move_missing_calls_hook:
  "move sampleKeyBetween sampleItems ''missing'' ''c'' = Inr [SetItemOrder None ''a2V''] \<and>
   moveTo sampleKeyBetween sampleItems ''missing'' ''c'' Before = Inr [] \<and>
   moveTo sampleKeyBetween sampleItems ''missing'' ''c'' After = Inr []"
  by code_simp

subsection \<open>One assignment for each invocation\<close>

text \<open>
  C9, as stated, fails: \<^verbatim>\<open>moveTo\<close> and \<^verbatim>\<open>insertBefore\<close> return before any call of the
  mutation hook when the item to reposition is not in the collection.
\<close>

theorem guarded_operations_make_no_call:
  "invoke sampleKeyBetween sampleItems (MoveTo ''missing'' ''c'' Before) = Inr [] \<and>
   invoke sampleKeyBetween sampleItems (InsertBefore ''missing'' (Some ''c'')) = Inr []"
  by code_simp

text \<open>
  C9, amended: when the item to reposition is not in the collection, \<^verbatim>\<open>moveTo\<close> and
  \<^verbatim>\<open>insertBefore\<close> make no call of the mutation hook and throw nothing. When it is in the
  collection, \<^verbatim>\<open>move\<close>, \<^verbatim>\<open>moveTo\<close> and \<^verbatim>\<open>insertBefore\<close> call \<^verbatim>\<open>generateKeyBetween\<close>
  once: if it throws, the error propagates and the hook is not called; if it returns a
  key, the hook is called exactly once, for an item with the requested identifier and
  with that key, so that assigning the key leaves every other item as it was.
\<close>

theorem single_assignment:
  "(movedId op \<notin> itemId ` set st \<longrightarrow> (\<forall>fromId toId. op \<noteq> Move fromId toId) \<longrightarrow>
      invoke g st op = Inr []) \<and>
   (movedId op \<in> itemId ` set st \<longrightarrow>
      (\<exists>r lo hi. r < length st \<and> itemId (st ! r) = movedId op \<and>
         invoke g st op =
           (case g lo hi of Inl e \<Rightarrow> Inl e | Inr k \<Rightarrow> Inr [SetItemOrder (Some r) k]) \<and>
         (\<forall>k j. j \<noteq> r \<longrightarrow> assignOrder st r k ! j = st ! j)))"
proof (intro conjI impI)
  assume "movedId op \<notin> itemId ` set st" and "\<forall>fromId toId. op \<noteq> Move fromId toId"
  then show "invoke g st op = Inr []" by (rule invoke_not_found)
next
  assume "movedId op \<in> itemId ` set st"
  from invoke_found [OF this, of g] obtain r lo hi where
    "r < length st" "itemId (st ! r) = movedId op"
    "invoke g st op = setItemOrder (Some (r, st ! r)) (g lo hi)"
    by blast
  moreover have "\<forall>k j. j \<noteq> r \<longrightarrow> assignOrder st r k ! j = st ! j"
    by (simp add: assignOrder_def)
  ultimately show "\<exists>r lo hi. r < length st \<and> itemId (st ! r) = movedId op \<and>
         invoke g st op =
           (case g lo hi of Inl e \<Rightarrow> Inl e | Inr k \<Rightarrow> Inr [SetItemOrder (Some r) k]) \<and>
         (\<forall>k j. j \<noteq> r \<longrightarrow> assignOrder st r k ! j = st ! j)"
    unfolding setItemOrder_Some by blast
qed

theorem single_assignment_witness:
  "''missing'' \<notin> itemId ` set sampleItems \<and>
   invoke sampleKeyBetween sampleItems (MoveTo ''missing'' ''c'' Before) = Inr [] \<and>
   ''a'' \<in> itemId ` set sampleItems \<and>
   (\<exists>r lo hi. r < length sampleItems \<and> itemId (sampleItems ! r) = ''a'' \<and>
      invoke sampleKeyBetween sampleItems (Move ''a'' ''c'') =
        (case sampleKeyBetween lo hi of
           Inl e \<Rightarrow> Inl e | Inr k \<Rightarrow> Inr [SetItemOrder (Some r) k]) \<and>
      (\<forall>k j. j \<noteq> r \<longrightarrow> assignOrder sampleItems r k ! j = sampleItems ! j))"
proof -
  have missing: "''missing'' \<notin> itemId ` set sampleItems"
    and present: "''a'' \<in> itemId ` set sampleItems"
    by (simp_all add: sampleItems_ids)
  from single_assignment [of "MoveTo ''missing'' ''c'' Before" sampleItems sampleKeyBetween]
    missing
  have none: "invoke sampleKeyBetween sampleItems (MoveTo ''missing'' ''c'' Before) = Inr []"
    by simp
  from single_assignment [of "Move ''a'' ''c''" sampleItems sampleKeyBetween] present
  have one: "\<exists>r lo hi. r < length sampleItems \<and> itemId (sampleItems ! r) = ''a'' \<and>
      invoke sampleKeyBetween sampleItems (Move ''a'' ''c'') =
        (case sampleKeyBetween lo hi of
           Inl e \<Rightarrow> Inl e | Inr k \<Rightarrow> Inr [SetItemOrder (Some r) k]) \<and>
      (\<forall>k j. j \<noteq> r \<longrightarrow> assignOrder sampleItems r k ! j = sampleItems ! j)"
    by simp
  from missing none present one show ?thesis
    by (intro conjI)
qed

subsection \<open>moveTo with a target that is not in the collection\<close>

text \<open>
  C10. When \<open>fromId\<close> is in the collection and \<open>toId\<close> is not, \<^verbatim>\<open>moveTo\<close> neither returns
  early nor throws by itself: with position \<open>after\<close> it assigns to the item the key
  \<^verbatim>\<open>generateKeyBetween\<close> returns for \<^verbatim>\<open>null\<close> and the smallest order of the collection
  (the order of the first item in sorted order, below or equal to every order), and with
  position \<open>before\<close> the key it returns for \<^verbatim>\<open>null\<close> and \<^verbatim>\<open>null\<close>. Only a throw of
  \<^verbatim>\<open>generateKeyBetween\<close> prevents the assignment.
\<close>

theorem moveTo_missing_target:
  assumes "fromId \<in> itemId ` set st" and "toId \<notin> itemId ` set st"
  shows "\<exists>r first. r < length st \<and> itemId (st ! r) = fromId \<and>
           getSmallestOrder st = Some first \<and> (\<forall>x\<in>set st. first \<le> itemOrder x) \<and>
           moveTo g st fromId toId After =
             (case g None (Some first) of
                Inl e \<Rightarrow> Inl e | Inr k \<Rightarrow> Inr [SetItemOrder (Some r) k]) \<and>
           moveTo g st fromId toId Before =
             (case g None None of
                Inl e \<Rightarrow> Inl e | Inr k \<Rightarrow> Inr [SetItemOrder (Some r) k])"
proof -
  from find_in_getOrderedItems [OF assms(1)] obtain r where
    r: "r < length st" "itemId (st ! r) = fromId"
      "List.find (\<lambda>i. getItemId i = fromId) (getOrderedItems st) = Some (r, st ! r)"
    by blast
  from assms(1) have "st \<noteq> []" by auto
  from getSmallestOrder_least [OF this] obtain first where
    first: "getSmallestOrder st = Some first" "\<forall>x\<in>set st. first \<le> itemOrder x"
    by blast
  have "moveTo g st fromId toId After =
          (case g None (Some first) of
             Inl e \<Rightarrow> Inl e | Inr k \<Rightarrow> Inr [SetItemOrder (Some r) k])"
    using moveTo_missing_to(1) [OF r(3) assms(2), of g] first(1)
    by (simp add: setItemOrder_Some)
  moreover have "moveTo g st fromId toId Before =
          (case g None None of
             Inl e \<Rightarrow> Inl e | Inr k \<Rightarrow> Inr [SetItemOrder (Some r) k])"
    using moveTo_missing_to(2) [OF r(3) assms(2), of g]
    by (simp add: setItemOrder_Some)
  ultimately show ?thesis
    using r(1,2) first by blast
qed

theorem moveTo_missing_target_witness:
  "''a'' \<in> itemId ` set sampleItems \<and> ''zz'' \<notin> itemId ` set sampleItems \<and>
   (\<exists>r first. r < length sampleItems \<and> itemId (sampleItems ! r) = ''a'' \<and>
      getSmallestOrder sampleItems = Some first \<and>
      (\<forall>x\<in>set sampleItems. first \<le> itemOrder x) \<and>
      moveTo sampleKeyBetween sampleItems ''a'' ''zz'' After =
        (case sampleKeyBetween None (Some first) of
           Inl e \<Rightarrow> Inl e | Inr k \<Rightarrow> Inr [SetItemOrder (Some r) k]) \<and>
      moveTo sampleKeyBetween sampleItems ''a'' ''zz'' Before =
        (case sampleKeyBetween None None of
           Inl e \<Rightarrow> Inl e | Inr k \<Rightarrow> Inr [SetItemOrder (Some r) k])) \<and>
   getSmallestOrder sampleItems = Some ''a0'' \<and>
   moveTo sampleKeyBetween sampleItems ''a'' ''zz'' Before = Inr [SetItemOrder (Some 1) ''a0'']"
proof -
  have present: "''a'' \<in> itemId ` set sampleItems"
    and missing: "''zz'' \<notin> itemId ` set sampleItems"
    by (simp_all add: sampleItems_ids)
  have smallest: "getSmallestOrder sampleItems = Some ''a0''"
    by code_simp
  have before: "moveTo sampleKeyBetween sampleItems ''a'' ''zz'' Before =
      Inr [SetItemOrder (Some 1) ''a0'']"
    by code_simp
  from moveTo_missing_target [OF present missing, of sampleKeyBetween]
    present missing smallest before
  show ?thesis by blast
qed

end
